theory Spec2Isabelle
  imports Main "HOL-Library.Multiset"
begin

section \<open>The API gateway router (router.ts)\<close>

text \<open>
  The routing engine of the platform is the class \<open>ApiGatewayRouter\<close>: a list of
  rules, sorted once when the rules are installed, and a linear scan that returns the
  first rule accepting a request. The embedding below follows the class member by member.

  Modelling decisions:
  \<^item> a TypeScript string is a \<open>string\<close> (a list of characters); \<open>length\<close> is its
    \<open>.length\<close>. The built-in \<open>toUpperCase\<close> is modelled on the ASCII letters, the
    alphabet of HTTP method names;
  \<^item> an optional field (\<open>pathPrefix?\<close>, \<open>exactPath?\<close>, \<open>method?\<close>,
    \<open>priority?\<close>) is an \<open>option\<close>: \<open>None\<close> is \<open>undefined\<close>. The field \<open>method\<close> of
    a rule is \<open>ruleMethod\<close> and that of a request \<open>requestMethod\<close>; \<open>id\<close> is
    \<open>ruleId\<close>;
  \<^item> \<open>priority\<close> is an integer, as the data model of the specification says;
  \<^item> \<open>Array.prototype.sort\<close> is stable (ECMAScript 2019), and the comparator of
    \<open>_sortRules\<close> is a consistent one, so the result is the stable sort of the list by
    that comparator; it is computed here by insertion.
\<close>

subsection \<open>Data model\<close>

record RoutingRule =
  ruleId :: string
  pathPrefix :: "string option"
  exactPath :: "string option"
  ruleMethod :: "string option"
  targetService :: string
  priority :: "int option"

record IncomingRequest =
  path :: string
  requestMethod :: string

record RoutingResult =
  resultService :: string
  targetPath :: string

record Router =
  rules :: "RoutingRule list"

subsection \<open>JavaScript primitives used by the router\<close>

text \<open>Truthiness of an optional string: \<open>undefined\<close> and \<open>''\<close> are falsy.\<close>

fun truthy :: "string option \<Rightarrow> bool" where
  "truthy None = False"
| "truthy (Some s) = (s \<noteq> [])"

text \<open>\<open>x || d\<close> for an optional string \<open>x\<close> and a string \<open>d\<close>.\<close>

fun orString :: "string option \<Rightarrow> string \<Rightarrow> string" where
  "orString None d = d"
| "orString (Some s) d = (if s = [] then d else s)"

text \<open>\<open>x ?? 0\<close> for an optional number.\<close>

fun orZero :: "int option \<Rightarrow> int" where
  "orZero None = 0"
| "orZero (Some p) = p"

definition toUpperChar :: "char \<Rightarrow> char" where
  "toUpperChar c =
     (let n = (of_char c :: nat) in if 97 \<le> n \<and> n \<le> 122 then char_of (n - 32) else c)"

definition toUpperCase :: "string \<Rightarrow> string" where
  "toUpperCase s = map toUpperChar s"

definition startsWith :: "string \<Rightarrow> string \<Rightarrow> bool" where
  "startsWith s p = (take (length p) s = p)"

text \<open>\<open>s.substring(n)\<close>: the characters from index \<open>n\<close> on, empty when \<open>n\<close> is
  past the end.\<close>

definition substring :: "string \<Rightarrow> nat \<Rightarrow> string" where
  "substring s n = drop n s"

subsection \<open>\<open>_sortRules\<close>\<close>

text \<open>The comparator passed to \<open>sort\<close>: negative when \<open>a\<close> goes first, positive when
  \<open>b\<close> goes first, zero when the order of the two is left as it is.\<close>

definition compareRules :: "RoutingRule \<Rightarrow> RoutingRule \<Rightarrow> int" where
  "compareRules a b =
     (let priorityA = orZero (priority a);
          priorityB = orZero (priority b)
      in if priorityB \<noteq> priorityA then priorityB - priorityA
         else
           let aIsExact = truthy (exactPath a);
               bIsExact = truthy (exactPath b)
           in if aIsExact \<and> \<not> bIsExact then - 1
              else if \<not> aIsExact \<and> bIsExact then 1
              else
                let pathA = orString (exactPath a) (orString (pathPrefix a) []);
                    pathB = orString (exactPath b) (orString (pathPrefix b) [])
                in if length pathB \<noteq> length pathA
                   then int (length pathB) - int (length pathA)
                   else 0)"

fun insertRule :: "RoutingRule \<Rightarrow> RoutingRule list \<Rightarrow> RoutingRule list" where
  "insertRule a [] = [a]"
| "insertRule a (b # bs) =
     (if compareRules a b \<le> 0 then a # b # bs else b # insertRule a bs)"

definition sortRules :: "RoutingRule list \<Rightarrow> RoutingRule list" where
  "sortRules rs = foldr insertRule rs []"

subsection \<open>\<open>updateRules\<close> and the constructor\<close>

definition updateRules :: "Router \<Rightarrow> RoutingRule list \<Rightarrow> Router" where
  "updateRules this newRules = this\<lparr>rules := sortRules newRules\<rparr>"

definition newRouter :: "RoutingRule list \<Rightarrow> Router" where
  "newRouter rs = updateRules \<lparr>rules = []\<rparr> rs"

subsection \<open>\<open>routeRequest\<close>\<close>

text \<open>The method check at the head of the loop body: true when the rule is skipped.\<close>

definition methodMismatch :: "RoutingRule \<Rightarrow> IncomingRequest \<Rightarrow> bool" where
  "methodMismatch rule request =
     (truthy (ruleMethod rule) \<and>
      toUpperCase (the (ruleMethod rule)) \<noteq> toUpperCase (requestMethod request))"

text \<open>The path check of the loop body: the values of \<open>pathMatches\<close> and
  \<open>targetPathForService\<close> after the \<open>if\<close> / \<open>else if\<close>.\<close>

definition matchPath :: "RoutingRule \<Rightarrow> IncomingRequest \<Rightarrow> bool \<times> string" where
  "matchPath rule request =
     (if truthy (exactPath rule) then
        (if path request = the (exactPath rule) then (True, path request)
         else (False, path request))
      else if truthy (pathPrefix rule) then
        (if startsWith (path request) (the (pathPrefix rule)) then
           (let strippedPath = substring (path request) (length (the (pathPrefix rule)))
            in if strippedPath = [] then (True, ''/'')
               else if \<not> startsWith strippedPath ''/'' then (True, ''/'' @ strippedPath)
               else (True, strippedPath))
         else (False, path request))
      else (False, path request))"

text \<open>The \<open>for\<close> loop over the sorted rules.\<close>

fun routeLoop :: "RoutingRule list \<Rightarrow> IncomingRequest \<Rightarrow> RoutingResult option" where
  "routeLoop [] request = None"
| "routeLoop (rule # rest) request =
     (if methodMismatch rule request then routeLoop rest request
      else
        (case matchPath rule request of
           (pathMatches, targetPathForService) \<Rightarrow>
             if pathMatches
             then Some \<lparr>resultService = targetService rule,
                        targetPath = targetPathForService\<rparr>
             else routeLoop rest request))"

definition routeRequest :: "Router \<Rightarrow> IncomingRequest \<Rightarrow> RoutingResult option" where
  "routeRequest this request = routeLoop (rules this) request"

subsection \<open>Method calls as state transformers\<close>

text \<open>A call of a public method takes the router object and gives back what the method
  returns together with the object after the call. \<open>routeRequest\<close> assigns to no
  field; \<open>updateRules\<close> assigns \<open>_rules\<close> and returns nothing.\<close>

datatype call = RouteRequest IncomingRequest | UpdateRules "RoutingRule list"

fun invoke :: "call \<Rightarrow> Router \<Rightarrow> RoutingResult option \<times> Router" where
  "invoke (RouteRequest request) this = (routeRequest this request, this)"
| "invoke (UpdateRules newRules) this = (None, updateRules this newRules)"


subsection \<open>The rules of the test suite (router.test.ts)\<close>

definition mkRule ::
  "string \<Rightarrow> string option \<Rightarrow> string option \<Rightarrow> string option \<Rightarrow> string \<Rightarrow> int option
     \<Rightarrow> RoutingRule" where
  "mkRule i pp ep m t p =
     \<lparr>ruleId = i, pathPrefix = pp, exactPath = ep, ruleMethod = m, targetService = t,
      priority = p\<rparr>"

definition mockRules :: "RoutingRule list" where
  "mockRules =
     [mkRule ''rule-users-prefix'' (Some ''/users'') None None ''userService'' (Some 10),
      mkRule ''rule-health-exact'' None (Some ''/health'') (Some ''GET'') ''healthService''
        (Some 20),
      mkRule ''rule-products-prefix'' (Some ''/products'') None None ''productService''
        (Some 5),
      mkRule ''rule-admin-post'' None (Some ''/admin'') (Some ''POST'') ''adminService''
        (Some 15),
      mkRule ''rule-admin-get-prefix'' (Some ''/admin'') None (Some ''GET'')
        ''adminDashboardService'' (Some 10),
      mkRule ''rule-root-default'' (Some ''/'') None None ''defaultService'' (Some 0)]"

subsection \<open>Notions of the specification\<close>

text \<open>A rule passes both the method filter and the path test for a request.\<close>

definition ruleMatches :: "RoutingRule \<Rightarrow> IncomingRequest \<Rightarrow> bool" where
  "ruleMatches rule request =
     (\<not> methodMismatch rule request \<and> fst (matchPath rule request))"

text \<open>The forwarded path the path test computes.\<close>

definition forwardedPath :: "RoutingRule \<Rightarrow> IncomingRequest \<Rightarrow> string" where
  "forwardedPath rule request = snd (matchPath rule request)"

text \<open>The three sorting criteria as the comparator reads them: the priority with
  \<open>undefined\<close> as 0, the specificity class (a truthy \<open>exactPath\<close>), and the length of
  \<open>exactPath || pathPrefix || ''\<close>.\<close>

definition rulePriority :: "RoutingRule \<Rightarrow> int" where
  "rulePriority r = orZero (priority r)"

definition isExact :: "RoutingRule \<Rightarrow> bool" where
  "isExact r = truthy (exactPath r)"

definition rulePathLength :: "RoutingRule \<Rightarrow> nat" where
  "rulePathLength r = length (orString (exactPath r) (orString (pathPrefix r) []))"

definition sortKey :: "RoutingRule \<Rightarrow> int \<times> bool \<times> nat" where
  "sortKey r = (rulePriority r, isExact r, rulePathLength r)"

text \<open>\<open>a\<close> is ranked strictly above \<open>b\<close> by the first three criteria.\<close>

definition ranksAbove :: "RoutingRule \<Rightarrow> RoutingRule \<Rightarrow> bool" where
  "ranksAbove a b =
     (rulePriority b < rulePriority a \<or>
      (rulePriority a = rulePriority b \<and>
       ((isExact a \<and> \<not> isExact b) \<or>
        (isExact a = isExact b \<and> rulePathLength b < rulePathLength a))))"

text \<open>The same criteria in the words of the specification, where a field is set as soon
  as it is present, whatever string it holds.\<close>

definition spec_exactPathSet :: "RoutingRule \<Rightarrow> bool" where
  "spec_exactPathSet r = (exactPath r \<noteq> None)"

definition spec_pathLength :: "RoutingRule \<Rightarrow> nat" where
  "spec_pathLength r =
     (case exactPath r of
        Some e \<Rightarrow> length e
      | None \<Rightarrow> (case pathPrefix r of Some p \<Rightarrow> length p | None \<Rightarrow> 0))"

definition spec_ranksAbove :: "RoutingRule \<Rightarrow> RoutingRule \<Rightarrow> bool" where
  "spec_ranksAbove a b =
     (rulePriority b < rulePriority a \<or>
      (rulePriority a = rulePriority b \<and>
       ((spec_exactPathSet a \<and> \<not> spec_exactPathSet b) \<or>
        (spec_exactPathSet a = spec_exactPathSet b \<and> spec_pathLength b < spec_pathLength a))))"

text \<open>An optional string field after an empty value has, or has not, been replaced by an
  absent one; and a rule after any of its empty fields have been so replaced.\<close>

definition emptyAsAbsent :: "string option \<Rightarrow> string option \<Rightarrow> bool" where
  "emptyAsAbsent x y = (y = x \<or> (x = Some [] \<and> y = None))"

definition replacedEmpty :: "RoutingRule \<Rightarrow> RoutingRule \<Rightarrow> bool" where
  "replacedEmpty r r' =
     (ruleId r' = ruleId r \<and> targetService r' = targetService r \<and> priority r' = priority r \<and>
      emptyAsAbsent (ruleMethod r) (ruleMethod r') \<and>
      emptyAsAbsent (exactPath r) (exactPath r') \<and>
      emptyAsAbsent (pathPrefix r) (pathPrefix r'))"

text \<open>Two rules that the comparator and the loop body cannot tell apart: they agree on
  everything the code reads of them.\<close>

definition routesAlike :: "RoutingRule \<Rightarrow> RoutingRule \<Rightarrow> bool" where
  "routesAlike a b =
     (targetService a = targetService b \<and>
      orZero (priority a) = orZero (priority b) \<and>
      truthy (ruleMethod a) = truthy (ruleMethod b) \<and>
      (truthy (ruleMethod a) \<longrightarrow> ruleMethod a = ruleMethod b) \<and>
      truthy (exactPath a) = truthy (exactPath b) \<and>
      (truthy (exactPath a) \<longrightarrow> exactPath a = exactPath b) \<and>
      (\<not> truthy (exactPath a) \<longrightarrow>
         truthy (pathPrefix a) = truthy (pathPrefix b) \<and>
         (truthy (pathPrefix a) \<longrightarrow> pathPrefix a = pathPrefix b)))"

section \<open>Basic facts about the model\<close>

lemma rules_updateRules: "rules (updateRules this rs) = sortRules rs"
  by (simp add: updateRules_def)

lemma rules_newRouter: "rules (newRouter rs) = sortRules rs"
  by (simp add: newRouter_def updateRules_def)

lemma sortRules_Nil: "sortRules [] = []"
  by (simp add: sortRules_def)

lemma sortRules_Cons: "sortRules (r # rs) = insertRule r (sortRules rs)"
  by (simp add: sortRules_def)

lemma routeLoop_step:
  "routeLoop (rule # rest) request =
     (if ruleMatches rule request
      then Some \<lparr>resultService = targetService rule, targetPath = forwardedPath rule request\<rparr>
      else routeLoop rest request)"
  by (simp add: ruleMatches_def forwardedPath_def split: prod.splits)

lemma routeLoop_no_match:
  "(\<forall>r \<in> set rs. \<not> ruleMatches r request) \<Longrightarrow> routeLoop rs request = None"
  by (induction rs) (simp_all add: routeLoop_step del: routeLoop.simps(2))

lemma routeLoop_skip:
  "(\<forall>r \<in> set pre. \<not> ruleMatches r request) \<Longrightarrow>
     routeLoop (pre @ rest) request = routeLoop rest request"
  by (induction pre) (simp_all add: routeLoop_step del: routeLoop.simps(2))

lemma routeLoop_find:
  "routeLoop rs request =
     (case find (\<lambda>rule. ruleMatches rule request) rs of
        None \<Rightarrow> None
      | Some rule \<Rightarrow>
          Some \<lparr>resultService = targetService rule, targetPath = forwardedPath rule request\<rparr>)"
  by (induction rs) (simp_all add: routeLoop_step del: routeLoop.simps(2))

section \<open>Properties of the router\<close>

subsection \<open>The first matching rule wins\<close>

text \<open>
  C1. For every router and every request, \<open>routeRequest\<close> returns the target service and
  the computed forwarded path of the first rule of the router's (sorted) rule list that
  passes both the method filter and the path test, whatever rules come after it; and when
  no rule of the list passes both, it returns no result.
\<close>

theorem routeRequest_first_match:
  "(rules this = pre @ rule # post \<and> (\<forall>r \<in> set pre. \<not> ruleMatches r request) \<and>
      ruleMatches rule request \<longrightarrow>
      routeRequest this request =
        Some \<lparr>resultService = targetService rule, targetPath = forwardedPath rule request\<rparr>) \<and>
   ((\<forall>r \<in> set (rules this). \<not> ruleMatches r request) \<longrightarrow> routeRequest this request = None)"
  by (auto simp: routeRequest_def routeLoop_skip routeLoop_step routeLoop_no_match
           simp del: routeLoop.simps(2))

theorem routeRequest_first_match_witness:
  "rules (newRouter mockRules) =
     [mockRules ! 1, mockRules ! 3, mockRules ! 0] @ (mockRules ! 4) #
       [mockRules ! 2, mockRules ! 5] \<and>
   list_all (\<lambda>r. \<not> ruleMatches r \<lparr>path = ''/admin/config'', requestMethod = ''GET''\<rparr>)
     [mockRules ! 1, mockRules ! 3, mockRules ! 0] \<and>
   ruleMatches (mockRules ! 4) \<lparr>path = ''/admin/config'', requestMethod = ''GET''\<rparr> \<and>
   ruleMatches (mockRules ! 5) \<lparr>path = ''/admin/config'', requestMethod = ''GET''\<rparr> \<and>
   routeRequest (newRouter mockRules) \<lparr>path = ''/admin/config'', requestMethod = ''GET''\<rparr> =
     Some \<lparr>resultService = ''adminDashboardService'', targetPath = ''/config''\<rparr> \<and>
   list_all (\<lambda>r. \<not> ruleMatches r \<lparr>path = ''/nomatch'', requestMethod = ''GET''\<rparr>)
     (rules (newRouter (take 5 mockRules))) \<and>
   routeRequest (newRouter (take 5 mockRules)) \<lparr>path = ''/nomatch'', requestMethod = ''GET''\<rparr> =
     None"
proof -
  let ?q = "\<lparr>path = ''/admin/config'', requestMethod = ''GET''\<rparr>"
  let ?q2 = "\<lparr>path = ''/nomatch'', requestMethod = ''GET''\<rparr>"
  have h1: "rules (newRouter mockRules) =
      [mockRules ! 1, mockRules ! 3, mockRules ! 0] @ (mockRules ! 4) #
        [mockRules ! 2, mockRules ! 5]"
    by code_simp
  have h2: "list_all (\<lambda>r. \<not> ruleMatches r ?q) [mockRules ! 1, mockRules ! 3, mockRules ! 0]"
    by code_simp
  have h3: "ruleMatches (mockRules ! 4) ?q" "ruleMatches (mockRules ! 5) ?q"
    by code_simp+
  have h4: "list_all (\<lambda>r. \<not> ruleMatches r ?q2) (rules (newRouter (take 5 mockRules)))"
    by code_simp
  have e: "Some \<lparr>resultService = targetService (mockRules ! 4),
                  targetPath = forwardedPath (mockRules ! 4) ?q\<rparr> =
           Some \<lparr>resultService = ''adminDashboardService'', targetPath = ''/config''\<rparr>"
    by code_simp
  from routeRequest_first_match [of "newRouter mockRules" _ _ _ ?q] h1 h2 h3
  have "routeRequest (newRouter mockRules) ?q =
     Some \<lparr>resultService = targetService (mockRules ! 4),
           targetPath = forwardedPath (mockRules ! 4) ?q\<rparr>"
    unfolding list_all_iff by blast
  from trans [OF this e]
  have r1: "routeRequest (newRouter mockRules) ?q =
     Some \<lparr>resultService = ''adminDashboardService'', targetPath = ''/config''\<rparr>" .
  from routeRequest_first_match [of "newRouter (take 5 mockRules)" _ _ _ ?q2] h4
  have r2: "routeRequest (newRouter (take 5 mockRules)) ?q2 = None"
    unfolding list_all_iff by blast
  from h1 h2 h3 h4 r1 r2 show ?thesis by blast
qed


subsection \<open>The comparator and the three criteria\<close>

lemma compareRules_neg: "(compareRules a b < 0) = ranksAbove a b"
  by (auto simp: compareRules_def ranksAbove_def rulePriority_def isExact_def
      rulePathLength_def Let_def)

lemma compareRules_pos: "(0 < compareRules a b) = ranksAbove b a"
  by (auto simp: compareRules_def ranksAbove_def rulePriority_def isExact_def
      rulePathLength_def Let_def)

lemma compareRules_zero: "(compareRules a b = 0) = (sortKey a = sortKey b)"
  by (auto simp: compareRules_def sortKey_def rulePriority_def isExact_def
      rulePathLength_def Let_def)

lemma compareRules_le: "(compareRules a b \<le> 0) = (\<not> ranksAbove b a)"
  using compareRules_pos [of a b] by auto

lemma ranksAbove_irrefl: "\<not> ranksAbove a a"
  by (simp add: ranksAbove_def)

lemma ranksAbove_sortKey: "sortKey a = sortKey b \<Longrightarrow> \<not> ranksAbove a b"
  by (auto simp: ranksAbove_def sortKey_def)

lemma not_ranksAbove_trans:
  "\<not> ranksAbove b a \<Longrightarrow> \<not> ranksAbove c b \<Longrightarrow> \<not> ranksAbove c a"
  by (auto simp: ranksAbove_def)

lemma ranksAbove_asym: "ranksAbove a b \<Longrightarrow> \<not> ranksAbove b a"
  by (auto simp: ranksAbove_def)

subsection \<open>Insertion keeps the list sorted, and is stable\<close>

lemma mset_insertRule: "mset (insertRule a bs) = add_mset a (mset bs)"
  by (induction bs) simp_all

lemma set_insertRule: "set (insertRule a bs) = insert a (set bs)"
  by (induction bs) auto

lemma sorted_insertRule:
  "sorted_wrt (\<lambda>x y. \<not> ranksAbove y x) bs \<Longrightarrow>
     sorted_wrt (\<lambda>x y. \<not> ranksAbove y x) (insertRule a bs)"
proof (induction bs)
  case Nil
  then show ?case by simp
next
  case (Cons b bs)
  show ?case
  proof (cases "compareRules a b \<le> 0")
    case True
    then have ab: "\<not> ranksAbove b a" by (simp add: compareRules_le)
    have "\<forall>x \<in> set bs. \<not> ranksAbove x a"
      using Cons.prems ab not_ranksAbove_trans by auto
    with True ab Cons.prems show ?thesis by simp
  next
    case False
    then have "ranksAbove b a" by (simp add: compareRules_le)
    then have "\<not> ranksAbove a b" by (rule ranksAbove_asym)
    with False Cons show ?thesis by (auto simp: set_insertRule)
  qed
qed

lemma filter_insertRule:
  "filter (\<lambda>r. sortKey r = k) (insertRule a bs) =
     (if sortKey a = k then a # filter (\<lambda>r. sortKey r = k) bs
      else filter (\<lambda>r. sortKey r = k) bs)"
proof (induction bs)
  case Nil
  then show ?case by simp
next
  case (Cons b bs)
  have "sortKey a = sortKey b \<Longrightarrow> compareRules a b \<le> 0"
    using compareRules_zero [of a b] by simp
  with Cons show ?case by auto
qed

lemma mset_sortRules: "mset (sortRules rs) = mset rs"
  by (induction rs) (simp_all add: sortRules_Nil sortRules_Cons mset_insertRule)

lemma sorted_sortRules: "sorted_wrt (\<lambda>x y. \<not> ranksAbove y x) (sortRules rs)"
  by (induction rs) (simp_all add: sortRules_Nil sortRules_Cons sorted_insertRule)

lemma stable_sortRules:
  "filter (\<lambda>r. sortKey r = k) (sortRules rs) = filter (\<lambda>r. sortKey r = k) rs"
  by (induction rs) (simp_all add: sortRules_Nil sortRules_Cons filter_insertRule)

text \<open>
  C2 (as amended). The rule list installed by the constructor or by \<open>updateRules\<close> is a
  permutation of the given rules, sorted by: priority descending, a missing priority
  counting as 0; then, among equal priorities, a rule with a non-empty \<open>exactPath\<close>
  above a rule whose \<open>exactPath\<close> is absent or empty; then by descending length of
  \<open>exactPath || pathPrefix || ''\<close> (the non-empty \<open>exactPath\<close>, else the non-empty
  \<open>pathPrefix\<close>, else the empty string); and rules equal under all three criteria keep
  their original relative order.
\<close>

theorem updateRules_sorted_stable:
  "rules (newRouter rs) = sortRules rs \<and>
   rules (updateRules this rs) = sortRules rs \<and>
   mset (sortRules rs) = mset rs \<and>
   sorted_wrt (\<lambda>x y. \<not> ranksAbove y x) (sortRules rs) \<and>
   (\<forall>k. filter (\<lambda>r. sortKey r = k) (sortRules rs) = filter (\<lambda>r. sortKey r = k) rs)"
  by (simp add: rules_newRouter rules_updateRules mset_sortRules sorted_sortRules
      stable_sortRules)

theorem updateRules_sorted_stable_witness:
  "rules (newRouter mockRules) = sortRules mockRules \<and>
   mset (sortRules mockRules) = mset mockRules \<and>
   sorted_wrt (\<lambda>x y. \<not> ranksAbove y x) (sortRules mockRules) \<and>
   filter (\<lambda>r. sortKey r = (10, False, 6)) (sortRules mockRules) =
     filter (\<lambda>r. sortKey r = (10, False, 6)) mockRules \<and>
   filter (\<lambda>r. sortKey r = (10, False, 6)) mockRules = [mockRules ! 0, mockRules ! 4] \<and>
   sortRules mockRules =
     [mockRules ! 1, mockRules ! 3, mockRules ! 0, mockRules ! 4, mockRules ! 2, mockRules ! 5]"
proof -
  have c: "filter (\<lambda>r. sortKey r = (10, False, 6)) mockRules = [mockRules ! 0, mockRules ! 4]"
    "sortRules mockRules =
       [mockRules ! 1, mockRules ! 3, mockRules ! 0, mockRules ! 4, mockRules ! 2, mockRules ! 5]"
    by code_simp+
  from updateRules_sorted_stable [of mockRules "newRouter []"] c show ?thesis by blast
qed

text \<open>
  C2 as stated fails: a rule whose \<open>exactPath\<close> is set to the empty string does not
  rank above a prefix-only rule of the same priority. Given in that order, the two rules
  below are installed in the opposite order.
\<close>

theorem empty_exactPath_sorted_as_prefix:
  "exactPath (mkRule ''a'' None (Some []) None ''serviceA'' None) \<noteq> None \<and>
   exactPath (mkRule ''b'' (Some ''/abc'') None None ''serviceB'' None) = None \<and>
   spec_ranksAbove (mkRule ''a'' None (Some []) None ''serviceA'' None)
     (mkRule ''b'' (Some ''/abc'') None None ''serviceB'' None) \<and>
   rules (newRouter [mkRule ''a'' None (Some []) None ''serviceA'' None,
                     mkRule ''b'' (Some ''/abc'') None None ''serviceB'' None]) =
     [mkRule ''b'' (Some ''/abc'') None None ''serviceB'' None,
      mkRule ''a'' None (Some []) None ''serviceA'' None] \<and>
   \<not> sorted_wrt (\<lambda>x y. \<not> spec_ranksAbove y x)
       (rules (newRouter [mkRule ''a'' None (Some []) None ''serviceA'' None,
                          mkRule ''b'' (Some ''/abc'') None None ''serviceB'' None]))"
  by code_simp


subsection \<open>The path test\<close>

lemma startsWith_append: "startsWith (p @ rest) p"
  by (simp add: startsWith_def)

lemma startsWith_slash: "startsWith s ''/'' = (\<exists>t. s = CHR ''/'' # t)"
  by (cases s) (auto simp: startsWith_def)

lemma startsWith_iff: "startsWith s p = (\<exists>rest. s = p @ rest)"
  unfolding startsWith_def
  by (metis append_eq_conv_conj)

lemma matchPath_exact:
  "exactPath rule = Some e \<Longrightarrow> e \<noteq> [] \<Longrightarrow>
     matchPath rule request = (path request = e, path request)"
  by (simp add: matchPath_def)

lemma matchPath_prefix:
  "\<not> truthy (exactPath rule) \<Longrightarrow> pathPrefix rule = Some p \<Longrightarrow> p \<noteq> [] \<Longrightarrow>
   path request = p @ rest \<Longrightarrow>
     matchPath rule request =
       (True, case rest of [] \<Rightarrow> ''/''
              | c # cs \<Rightarrow> if c = CHR ''/'' then rest else CHR ''/'' # rest)"
  by (cases rest) (auto simp: matchPath_def startsWith_def substring_def)

lemma matchPath_prefix_no:
  "\<not> truthy (exactPath rule) \<Longrightarrow> pathPrefix rule = Some p \<Longrightarrow> p \<noteq> [] \<Longrightarrow>
   \<not> startsWith (path request) p \<Longrightarrow> matchPath rule request = (False, path request)"
  by (simp add: matchPath_def)

lemma matchPath_dead:
  "\<not> truthy (exactPath rule) \<Longrightarrow> \<not> truthy (pathPrefix rule) \<Longrightarrow>
     matchPath rule request = (False, path request)"
  by (simp add: matchPath_def)

lemma methodMismatch_absent: "\<not> truthy (ruleMethod rule) \<Longrightarrow> \<not> methodMismatch rule request"
  by (simp add: methodMismatch_def)

lemma sortRules_single: "sortRules [r] = [r]"
  by (simp add: sortRules_def)

lemma routeRequest_single:
  "routeRequest (newRouter [rule]) request =
     (if ruleMatches rule request
      then Some \<lparr>resultService = targetService rule, targetPath = forwardedPath rule request\<rparr>
      else None)"
  by (simp add: routeRequest_def rules_newRouter sortRules_single routeLoop_step
      del: routeLoop.simps(2))

text \<open>
  C3. When a rule matches by \<open>exactPath\<close>, the forwarded path is the request path
  unchanged. When a rule matches by \<open>pathPrefix\<close>, the forwarded path is the request path
  without the prefix, where an empty remainder becomes \<open>/\<close>, a remainder that does not
  start with \<open>/\<close> gets \<open>/\<close> prepended, and a remainder that starts with \<open>/\<close> is used
  as it is. Prefix \<open>/users\<close> turns \<open>/users/123/profile\<close> into \<open>/123/profile\<close> and
  \<open>/users\<close> into \<open>/\<close>.
\<close>

theorem forwarded_path:
  "(exactPath rule = Some e \<and> e \<noteq> [] \<and> path request = e \<longrightarrow>
      matchPath rule request = (True, path request)) \<and>
   (\<not> truthy (exactPath rule) \<and> pathPrefix rule = Some p \<and> p \<noteq> [] \<and>
    path request = p @ rest \<longrightarrow>
      matchPath rule request =
        (True, case rest of [] \<Rightarrow> ''/''
               | c # cs \<Rightarrow> if c = CHR ''/'' then rest else CHR ''/'' # rest)) \<and>
   routeRequest (newRouter [mkRule i (Some ''/users'') None None t pr])
       \<lparr>path = ''/users/123/profile'', requestMethod = m\<rparr> =
     Some \<lparr>resultService = t, targetPath = ''/123/profile''\<rparr> \<and>
   routeRequest (newRouter [mkRule i (Some ''/users'') None None t pr])
       \<lparr>path = ''/users'', requestMethod = m\<rparr> =
     Some \<lparr>resultService = t, targetPath = ''/''\<rparr>"
proof -
  let ?r = "mkRule i (Some ''/users'') None None t pr"
  have nm: "\<not> methodMismatch ?r q" for q
    by (simp add: methodMismatch_def mkRule_def)
  have m1: "matchPath ?r \<lparr>path = ''/users/123/profile'', requestMethod = m\<rparr> =
      (True, ''/123/profile'')"
    using matchPath_prefix [of ?r "''/users''" "\<lparr>path = ''/users/123/profile'', requestMethod = m\<rparr>"
        "''/123/profile''"]
    by (simp add: mkRule_def)
  have m2: "matchPath ?r \<lparr>path = ''/users'', requestMethod = m\<rparr> = (True, ''/'')"
    using matchPath_prefix [of ?r "''/users''" "\<lparr>path = ''/users'', requestMethod = m\<rparr>" "[]"]
    by (simp add: mkRule_def)
  have t: "targetService ?r = t" by (simp add: mkRule_def)
  show ?thesis
    by (simp add: matchPath_exact matchPath_prefix routeRequest_single ruleMatches_def
        forwardedPath_def nm m1 m2 t)
qed

theorem forwarded_path_witness:
  "exactPath (mockRules ! 1) = Some ''/health'' \<and>
   matchPath (mockRules ! 1) \<lparr>path = ''/health'', requestMethod = ''GET''\<rparr> = (True, ''/health'') \<and>
   \<not> truthy (exactPath (mockRules ! 0)) \<and> pathPrefix (mockRules ! 0) = Some ''/users'' \<and>
   matchPath (mockRules ! 0) \<lparr>path = ''/users'' @ ''settings'', requestMethod = ''PUT''\<rparr> =
     (True, ''/settings'') \<and>
   matchPath (mockRules ! 0) \<lparr>path = ''/users'' @ ''/settings'', requestMethod = ''PUT''\<rparr> =
     (True, ''/settings'')"
proof -
  have h1: "exactPath (mockRules ! 1) = Some ''/health''"
    and h2: "\<not> truthy (exactPath (mockRules ! 0))"
    and h3: "pathPrefix (mockRules ! 0) = Some ''/users''"
    by code_simp+
  have a: "matchPath (mockRules ! 1) \<lparr>path = ''/health'', requestMethod = ''GET''\<rparr> =
      (True, ''/health'')"
    using forwarded_path [of "mockRules ! 1" "''/health''"
        "\<lparr>path = ''/health'', requestMethod = ''GET''\<rparr>"] h1
    by simp
  have b: "matchPath (mockRules ! 0) \<lparr>path = ''/users'' @ ''settings'', requestMethod = ''PUT''\<rparr> =
      (True, ''/settings'')"
    using forwarded_path [of "mockRules ! 0" _
        "\<lparr>path = ''/users'' @ ''settings'', requestMethod = ''PUT''\<rparr>" "''/users''" "''settings''"]
      h2 h3
    by simp
  have c: "matchPath (mockRules ! 0) \<lparr>path = ''/users'' @ ''/settings'', requestMethod = ''PUT''\<rparr> =
      (True, ''/settings'')"
    using forwarded_path [of "mockRules ! 0" _
        "\<lparr>path = ''/users'' @ ''/settings'', requestMethod = ''PUT''\<rparr>" "''/users''" "''/settings''"]
      h2 h3
    by simp
  from h1 h2 h3 a b c show ?thesis by blast
qed


subsection \<open>Replacing the rule set\<close>

lemma updateRules_newRouter: "updateRules this rs = newRouter rs"
  by (simp add: updateRules_def newRouter_def)

text \<open>
  C5. \<open>updateRules\<close> fully replaces the routing behaviour: whatever rule set the router
  held, after \<open>updateRules rs\<close> it is the router a fresh construction with \<open>rs\<close> gives,
  and \<open>routeRequest\<close> returns for every request what it returns on that fresh router.
\<close>

theorem updateRules_replaces:
  "routeRequest (updateRules (newRouter old) rs) request =
     routeRequest (newRouter rs) request \<and>
   routeRequest (snd (invoke (UpdateRules rs) this)) request =
     routeRequest (newRouter rs) request \<and>
   updateRules this rs = newRouter rs"
  by (simp add: updateRules_newRouter)

theorem updateRules_replaces_witness:
  "routeRequest (updateRules (newRouter mockRules) (take 1 mockRules))
       \<lparr>path = ''/health'', requestMethod = ''GET''\<rparr> =
     routeRequest (newRouter (take 1 mockRules)) \<lparr>path = ''/health'', requestMethod = ''GET''\<rparr> \<and>
   routeRequest (newRouter (take 1 mockRules)) \<lparr>path = ''/health'', requestMethod = ''GET''\<rparr> =
     None \<and>
   routeRequest (newRouter mockRules) \<lparr>path = ''/health'', requestMethod = ''GET''\<rparr> =
     Some \<lparr>resultService = ''healthService'', targetPath = ''/health''\<rparr>"
proof -
  have c: "routeRequest (newRouter (take 1 mockRules))
             \<lparr>path = ''/health'', requestMethod = ''GET''\<rparr> = None"
    "routeRequest (newRouter mockRules) \<lparr>path = ''/health'', requestMethod = ''GET''\<rparr> =
       Some \<lparr>resultService = ''healthService'', targetPath = ''/health''\<rparr>"
    by code_simp+
  from updateRules_replaces [of mockRules "take 1 mockRules"
      "\<lparr>path = ''/health'', requestMethod = ''GET''\<rparr>" "newRouter mockRules"] c
  show ?thesis by blast
qed

text \<open>
  C7. A router constructed with the empty rule list, and a router after \<open>updateRules\<close>
  with the empty list, return no result for every request, the request for \<open>/\<close>
  included.
\<close>

theorem empty_rules_no_match:
  "routeRequest (newRouter []) request = None \<and>
   routeRequest (updateRules this []) request = None \<and>
   routeRequest (newRouter []) \<lparr>path = ''/'', requestMethod = m\<rparr> = None"
  by (simp add: routeRequest_def rules_newRouter rules_updateRules sortRules_Nil)

theorem empty_rules_no_match_witness:
  "routeRequest (newRouter []) \<lparr>path = ''/any'', requestMethod = ''GET''\<rparr> = None \<and>
   routeRequest (updateRules (newRouter mockRules) [])
     \<lparr>path = ''/any'', requestMethod = ''GET''\<rparr> = None \<and>
   routeRequest (newRouter mockRules) \<lparr>path = ''/any'', requestMethod = ''GET''\<rparr> =
     Some \<lparr>resultService = ''defaultService'', targetPath = ''/any''\<rparr>"
proof -
  have c: "routeRequest (newRouter mockRules) \<lparr>path = ''/any'', requestMethod = ''GET''\<rparr> =
     Some \<lparr>resultService = ''defaultService'', targetPath = ''/any''\<rparr>"
    by code_simp
  from empty_rules_no_match [of "\<lparr>path = ''/any'', requestMethod = ''GET''\<rparr>"
      "newRouter mockRules"] c
  show ?thesis by blast
qed

subsection \<open>Calls of \<open>routeRequest\<close> leave the router as it is\<close>





subsection \<open>Rules the code cannot tell apart\<close>

lemma routesAlike_refl: "routesAlike r r"
  unfolding routesAlike_def by blast

lemma routesAlikeD:
  assumes "routesAlike a b"
  shows "targetService a = targetService b"
    and "orZero (priority a) = orZero (priority b)"
    and "truthy (ruleMethod a) = truthy (ruleMethod b)"
    and "truthy (ruleMethod a) \<Longrightarrow> ruleMethod a = ruleMethod b"
    and "truthy (exactPath a) = truthy (exactPath b)"
    and "truthy (exactPath a) \<Longrightarrow> exactPath a = exactPath b"
    and "\<not> truthy (exactPath a) \<Longrightarrow> truthy (pathPrefix a) = truthy (pathPrefix b)"
    and "\<not> truthy (exactPath a) \<Longrightarrow> truthy (pathPrefix a) \<Longrightarrow> pathPrefix a = pathPrefix b"
  using assms unfolding routesAlike_def by blast+

lemma orString_truthy: "truthy x \<Longrightarrow> orString x d = the x"
  by (cases x) simp_all

lemma orString_falsy: "\<not> truthy x \<Longrightarrow> orString x d = d"
  by (cases x) simp_all

lemma routesAlike_path:
  assumes "routesAlike a b"
  shows "orString (exactPath a) (orString (pathPrefix a) []) =
         orString (exactPath b) (orString (pathPrefix b) [])"
proof (cases "truthy (exactPath a)")
  case True
  then have "truthy (exactPath b)" using routesAlikeD(5) [OF assms] by blast
  moreover have "exactPath a = exactPath b" using routesAlikeD(6) [OF assms True] .
  ultimately show ?thesis using True by (simp add: orString_truthy)
next
  case False
  then have fb: "\<not> truthy (exactPath b)" using routesAlikeD(5) [OF assms] by blast
  have "orString (pathPrefix a) [] = orString (pathPrefix b) []"
  proof (cases "truthy (pathPrefix a)")
    case True
    then have "truthy (pathPrefix b)" using routesAlikeD(7) [OF assms False] by blast
    moreover have "pathPrefix a = pathPrefix b" using routesAlikeD(8) [OF assms False True] .
    ultimately show ?thesis using True by (simp add: orString_truthy)
  next
    case F: False
    then have "\<not> truthy (pathPrefix b)" using routesAlikeD(7) [OF assms False] by blast
    with F show ?thesis by (simp add: orString_falsy)
  qed
  with False fb show ?thesis by (simp add: orString_falsy)
qed

lemma compareRules_sortKey:
  assumes "sortKey a = sortKey a'" and "sortKey b = sortKey b'"
  shows "compareRules a b = compareRules a' b'"
proof -
  have "orZero (priority a) = orZero (priority a')" "truthy (exactPath a) = truthy (exactPath a')"
    "length (orString (exactPath a) (orString (pathPrefix a) [])) =
     length (orString (exactPath a') (orString (pathPrefix a') []))"
    "orZero (priority b) = orZero (priority b')" "truthy (exactPath b) = truthy (exactPath b')"
    "length (orString (exactPath b) (orString (pathPrefix b) [])) =
     length (orString (exactPath b') (orString (pathPrefix b') []))"
    using assms
    by (simp_all add: sortKey_def rulePriority_def isExact_def rulePathLength_def)
  then show ?thesis unfolding compareRules_def by (simp only: Let_def)
qed

lemma routesAlike_sortKey:
  assumes "routesAlike a b"
  shows "sortKey a = sortKey b"
  unfolding sortKey_def rulePriority_def isExact_def rulePathLength_def
  by (simp only: routesAlikeD(2) [OF assms] routesAlikeD(5) [OF assms]
      routesAlike_path [OF assms])

lemma routesAlike_compare:
  "routesAlike a a' \<Longrightarrow> routesAlike b b' \<Longrightarrow> compareRules a b = compareRules a' b'"
  by (intro compareRules_sortKey routesAlike_sortKey)

lemma routesAlike_methodMismatch:
  assumes "routesAlike a b"
  shows "methodMismatch a request = methodMismatch b request"
proof (cases "truthy (ruleMethod a)")
  case True
  then have "truthy (ruleMethod b)" using routesAlikeD(3) [OF assms] by blast
  moreover have "ruleMethod a = ruleMethod b" using routesAlikeD(4) [OF assms True] .
  ultimately show ?thesis using True by (simp add: methodMismatch_def)
next
  case False
  then have "\<not> truthy (ruleMethod b)" using routesAlikeD(3) [OF assms] by blast
  with False show ?thesis by (simp add: methodMismatch_def)
qed

lemma routesAlike_matchPath:
  assumes "routesAlike a b"
  shows "matchPath a request = matchPath b request"
proof (cases "truthy (exactPath a)")
  case True
  then have "truthy (exactPath b)" using routesAlikeD(5) [OF assms] by blast
  moreover have "exactPath a = exactPath b" using routesAlikeD(6) [OF assms True] .
  ultimately show ?thesis using True by (simp add: matchPath_def)
next
  case False
  then have fb: "\<not> truthy (exactPath b)" using routesAlikeD(5) [OF assms] by blast
  show ?thesis
  proof (cases "truthy (pathPrefix a)")
    case True
    then have "truthy (pathPrefix b)" using routesAlikeD(7) [OF assms False] by blast
    moreover have "pathPrefix a = pathPrefix b" using routesAlikeD(8) [OF assms False True] .
    ultimately show ?thesis using True False fb by (simp add: matchPath_def)
  next
    case F: False
    then have "\<not> truthy (pathPrefix b)" using routesAlikeD(7) [OF assms False] by blast
    with F False fb show ?thesis by (simp add: matchPath_def)
  qed
qed

lemma routesAlike_ruleMatches:
  "routesAlike a b \<Longrightarrow> ruleMatches a request = ruleMatches b request"
  unfolding ruleMatches_def
  by (simp only: routesAlike_methodMismatch [of a b] routesAlike_matchPath [of a b])

lemma insertRule_related:
  assumes sub: "\<And>x y. R x y \<Longrightarrow> routesAlike x y"
  shows "R a a' \<Longrightarrow> list_all2 R bs bs' \<Longrightarrow> list_all2 R (insertRule a bs) (insertRule a' bs')"
proof (induction bs arbitrary: bs')
  case Nil
  then show ?case by simp
next
  case (Cons b bs)
  from Cons.prems(2) obtain b' cs' where bs': "bs' = b' # cs'" and b: "R b b'"
    and cs: "list_all2 R bs cs'"
    by (auto simp: list_all2_Cons1)
  have "compareRules a b = compareRules a' b'"
    using Cons.prems(1) b sub by (intro routesAlike_compare) blast+
  with Cons.IH [OF Cons.prems(1) cs] Cons.prems(1) b cs bs' show ?case by simp
qed

lemma sortRules_related:
  assumes sub: "\<And>x y. R x y \<Longrightarrow> routesAlike x y"
  shows "list_all2 R rs rs' \<Longrightarrow> list_all2 R (sortRules rs) (sortRules rs')"
proof (induction rs arbitrary: rs')
  case Nil
  then show ?case by (simp add: sortRules_Nil)
next
  case (Cons r rs)
  from Cons.prems obtain r' ts' where rs': "rs' = r' # ts'" and r: "R r r'"
    and ts: "list_all2 R rs ts'"
    by (auto simp: list_all2_Cons1)
  from insertRule_related [of R, OF sub r Cons.IH [OF ts]] rs' show ?case
    by (simp add: sortRules_Cons)
qed

lemma routeLoop_related:
  "list_all2 routesAlike rs rs' \<Longrightarrow> routeLoop rs request = routeLoop rs' request"
proof (induction rs arbitrary: rs')
  case Nil
  then show ?case by simp
next
  case (Cons r rs)
  from Cons.prems obtain r' ts' where rs': "rs' = r' # ts'" and r: "routesAlike r r'"
    and ts: "list_all2 routesAlike rs ts'"
    by (auto simp: list_all2_Cons1)
  have "targetService r = targetService r'" using routesAlikeD(1) [OF r] .
  with Cons.IH [OF ts] rs' routesAlike_ruleMatches [OF r, of request]
    routesAlike_matchPath [OF r, of request]
  show ?case by (simp add: routeLoop_step forwardedPath_def del: routeLoop.simps(2))
qed

lemma routeRequest_related:
  assumes "list_all2 routesAlike rs rs'"
  shows "routeRequest (newRouter rs) request = routeRequest (newRouter rs') request"
proof -
  have "list_all2 routesAlike (sortRules rs) (sortRules rs')"
    using assms by (rule sortRules_related [of routesAlike, rotated]) blast
  then show ?thesis
    by (simp add: routeRequest_def rules_newRouter routeLoop_related)
qed

lemma emptyAsAbsent_truthy:
  assumes "emptyAsAbsent x y"
  shows "truthy x = truthy y" and "truthy x \<Longrightarrow> x = y"
  using assms unfolding emptyAsAbsent_def by auto

lemma replacedEmpty_routesAlike:
  assumes "replacedEmpty r r'"
  shows "routesAlike r r'"
proof -
  from assms have t: "targetService r' = targetService r" and p: "priority r' = priority r"
    and m: "emptyAsAbsent (ruleMethod r) (ruleMethod r')"
    and e: "emptyAsAbsent (exactPath r) (exactPath r')"
    and x: "emptyAsAbsent (pathPrefix r) (pathPrefix r')"
    unfolding replacedEmpty_def by blast+
  show ?thesis
    unfolding routesAlike_def
    using t p emptyAsAbsent_truthy [OF m] emptyAsAbsent_truthy [OF e] emptyAsAbsent_truthy [OF x]
    by metis
qed


subsection \<open>A rule with a non-empty \<open>exactPath\<close>\<close>

lemma routesAlike_pathPrefix_update:
  assumes "truthy (exactPath rule)"
  shows "routesAlike (rule\<lparr>pathPrefix := p'\<rparr>) rule"
  unfolding routesAlike_def using assms by simp

text \<open>
  C4 (as amended). For every rule whose \<open>exactPath\<close> is a non-empty string, whatever its
  \<open>pathPrefix\<close>, only the exact-path branch is evaluated: the rule passes the path test if
  and only if the request path equals \<open>exactPath\<close>; a request path that starts with
  \<open>pathPrefix\<close> but differs from \<open>exactPath\<close> does not match; and changing or removing
  the \<open>pathPrefix\<close> of such a rule changes neither the sorted order nor any result of
  \<open>routeRequest\<close>.
\<close>

theorem exact_path_only:
  assumes "exactPath rule = Some e" and "e \<noteq> []"
  shows "(fst (matchPath rule request) \<longleftrightarrow> path request = e) \<and>
         (ruleMatches rule request \<longleftrightarrow> \<not> methodMismatch rule request \<and> path request = e) \<and>
         (pathPrefix rule = Some p \<and> startsWith (path request) p \<and> path request \<noteq> e \<longrightarrow>
            \<not> ruleMatches rule request) \<and>
         compareRules (rule\<lparr>pathPrefix := p'\<rparr>) other = compareRules rule other \<and>
         compareRules other (rule\<lparr>pathPrefix := p'\<rparr>) = compareRules other rule \<and>
         routeRequest (newRouter (before @ rule\<lparr>pathPrefix := p'\<rparr> # after)) request =
           routeRequest (newRouter (before @ rule # after)) request"
proof -
  have t: "truthy (exactPath rule)" using assms by simp
  have m: "matchPath rule request = (path request = e, path request)"
    using assms by (rule matchPath_exact)
  have a: "routesAlike (rule\<lparr>pathPrefix := p'\<rparr>) rule"
    using t by (rule routesAlike_pathPrefix_update)
  have "list_all2 routesAlike (before @ rule\<lparr>pathPrefix := p'\<rparr> # after) (before @ rule # after)"
    using a by (simp add: list_all2_appendI list_all2_refl routesAlike_refl)
  then have r: "routeRequest (newRouter (before @ rule\<lparr>pathPrefix := p'\<rparr> # after)) request =
           routeRequest (newRouter (before @ rule # after)) request"
    by (rule routeRequest_related)
  have c1: "compareRules (rule\<lparr>pathPrefix := p'\<rparr>) other = compareRules rule other"
    using a routesAlike_refl by (rule routesAlike_compare)
  have c2: "compareRules other (rule\<lparr>pathPrefix := p'\<rparr>) = compareRules other rule"
    using routesAlike_refl a by (rule routesAlike_compare)
  from m r c1 c2 show ?thesis by (simp add: ruleMatches_def)
qed

theorem exact_path_only_witness:
  "exactPath (mkRule ''r'' (Some ''/admin'') (Some ''/admin/x'') None ''svc'' None) =
     Some ''/admin/x'' \<and> ''/admin/x'' \<noteq> [] \<and>
   \<not> fst (matchPath (mkRule ''r'' (Some ''/admin'') (Some ''/admin/x'') None ''svc'' None)
           \<lparr>path = ''/admin/y'', requestMethod = ''GET''\<rparr>) \<and>
   fst (matchPath (mkRule ''r'' (Some ''/admin'') (Some ''/admin/x'') None ''svc'' None)
           \<lparr>path = ''/admin/x'', requestMethod = ''GET''\<rparr>) \<and>
   startsWith ''/admin/y'' ''/admin'' \<and>
   routeRequest (newRouter
       ([] @ (mkRule ''r'' (Some ''/admin'') (Some ''/admin/x'') None ''svc'' None)
               \<lparr>pathPrefix := None\<rparr> # [mockRules ! 5]))
       \<lparr>path = ''/admin/y'', requestMethod = ''GET''\<rparr> =
     routeRequest (newRouter
       ([] @ mkRule ''r'' (Some ''/admin'') (Some ''/admin/x'') None ''svc'' None # [mockRules ! 5]))
       \<lparr>path = ''/admin/y'', requestMethod = ''GET''\<rparr> \<and>
   routeRequest (newRouter
       ([] @ mkRule ''r'' (Some ''/admin'') (Some ''/admin/x'') None ''svc'' None # [mockRules ! 5]))
       \<lparr>path = ''/admin/y'', requestMethod = ''GET''\<rparr> =
     Some \<lparr>resultService = ''defaultService'', targetPath = ''/admin/y''\<rparr>"
proof -
  let ?r = "mkRule ''r'' (Some ''/admin'') (Some ''/admin/x'') None ''svc'' None"
  have h: "exactPath ?r = Some ''/admin/x''" "''/admin/x'' \<noteq> []"
    by code_simp+
  have c: "startsWith ''/admin/y'' ''/admin''"
    "routeRequest (newRouter ([] @ ?r # [mockRules ! 5]))
       \<lparr>path = ''/admin/y'', requestMethod = ''GET''\<rparr> =
     Some \<lparr>resultService = ''defaultService'', targetPath = ''/admin/y''\<rparr>"
    by code_simp+
  note t1 = exact_path_only [OF h, of "\<lparr>path = ''/admin/y'', requestMethod = ''GET''\<rparr>"
      "''/admin''" None ?r "[]" "[mockRules ! 5]"]
  note t2 = exact_path_only [OF h, of "\<lparr>path = ''/admin/x'', requestMethod = ''GET''\<rparr>"
      "''/admin''" None ?r "[]" "[mockRules ! 5]"]
  have n1: "\<not> fst (matchPath ?r \<lparr>path = ''/admin/y'', requestMethod = ''GET''\<rparr>)"
    using t1 by simp
  have n2: "fst (matchPath ?r \<lparr>path = ''/admin/x'', requestMethod = ''GET''\<rparr>)"
    using t2 by simp
  from h c n1 n2 t1 show ?thesis by blast
qed

text \<open>
  C4 as stated fails: the rule below sets both \<open>exactPath\<close> (to the empty string) and
  \<open>pathPrefix\<close>; the request path differs from its \<open>exactPath\<close>, and the rule matches
  through its \<open>pathPrefix\<close>, which therefore has an observable effect.
\<close>

theorem empty_exactPath_prefix_consulted:
  "exactPath (mkRule ''r'' (Some ''/a'') (Some []) None ''svc'' None) = Some [] \<and>
   pathPrefix (mkRule ''r'' (Some ''/a'') (Some []) None ''svc'' None) = Some ''/a'' \<and>
   path \<lparr>path = ''/a/b'', requestMethod = ''GET''\<rparr> \<noteq> [] \<and>
   ruleMatches (mkRule ''r'' (Some ''/a'') (Some []) None ''svc'' None)
     \<lparr>path = ''/a/b'', requestMethod = ''GET''\<rparr> \<and>
   routeRequest (newRouter [mkRule ''r'' (Some ''/a'') (Some []) None ''svc'' None])
       \<lparr>path = ''/a/b'', requestMethod = ''GET''\<rparr> =
     Some \<lparr>resultService = ''svc'', targetPath = ''/b''\<rparr> \<and>
   routeRequest (newRouter [mkRule ''r'' None (Some []) None ''svc'' None])
       \<lparr>path = ''/a/b'', requestMethod = ''GET''\<rparr> = None"
  by code_simp


subsection \<open>The method filter\<close>





subsection \<open>Rules for the root path\<close>

text \<open>
  C8 (as amended). An exact-path rule for \<open>/\<close> matches only a request whose path is
  literally \<open>/\<close>. A prefix rule for \<open>/\<close> passes the path test for exactly the request
  paths that begin with \<open>/\<close> (the path \<open>/\<close> itself and every sub-path), and then its
  forwarded path begins with \<open>/\<close>: the path \<open>/\<close> is forwarded as \<open>/\<close>.
\<close>

theorem root_rules:
  "(exactPath rule = Some ''/'' \<longrightarrow>
      (ruleMatches rule request \<longleftrightarrow> \<not> methodMismatch rule request \<and> path request = ''/'')) \<and>
   (\<not> truthy (exactPath rule) \<and> pathPrefix rule = Some ''/'' \<longrightarrow>
      (fst (matchPath rule request) \<longleftrightarrow> startsWith (path request) ''/'') \<and>
      (ruleMatches rule request \<longleftrightarrow>
         \<not> methodMismatch rule request \<and> startsWith (path request) ''/'') \<and>
      (path request = ''/'' \<longrightarrow> matchPath rule request = (True, ''/'')) \<and>
      (fst (matchPath rule request) \<longrightarrow> startsWith (forwardedPath rule request) ''/''))"
proof -
  have e: "exactPath rule = Some ''/'' \<Longrightarrow>
      ruleMatches rule request = (\<not> methodMismatch rule request \<and> path request = ''/'')"
    by (simp add: ruleMatches_def matchPath_exact)
  have p: "fst (matchPath rule request) = startsWith (path request) ''/'' \<and>
      (path request = ''/'' \<longrightarrow> matchPath rule request = (True, ''/'')) \<and>
      (fst (matchPath rule request) \<longrightarrow> startsWith (forwardedPath rule request) ''/'')"
    if h: "\<not> truthy (exactPath rule)" "pathPrefix rule = Some ''/''"
  proof (cases "startsWith (path request) ''/''")
    case True
    then obtain rest where r: "path request = ''/'' @ rest"
      by (auto simp: startsWith_iff)
    from matchPath_prefix [OF h(1) h(2) _ r]
    have m: "matchPath rule request =
       (True, case rest of [] \<Rightarrow> ''/''
              | c # cs \<Rightarrow> if c = CHR ''/'' then rest else CHR ''/'' # rest)"
      by simp
    show ?thesis
      using True r m
      by (cases rest) (auto simp: forwardedPath_def startsWith_slash)
  next
    case False
    from matchPath_prefix_no [OF h(1) h(2) _ False]
    have m: "matchPath rule request = (False, path request)" by simp
    moreover have "path request \<noteq> ''/''" using False by (auto simp: startsWith_def)
    ultimately show ?thesis using False by simp
  qed
  from e p show ?thesis unfolding ruleMatches_def by blast
qed

theorem root_rules_witness:
  "exactPath (mkRule ''root-exact'' None (Some ''/'') (Some ''GET'') ''exactRootService'' (Some 20)) =
     Some ''/'' \<and>
   \<not> ruleMatches (mkRule ''root-exact'' None (Some ''/'') (Some ''GET'') ''exactRootService'' (Some 20))
       \<lparr>path = ''/subpath'', requestMethod = ''GET''\<rparr> \<and>
   \<not> truthy (exactPath (mockRules ! 5)) \<and> pathPrefix (mockRules ! 5) = Some ''/'' \<and>
   startsWith (path \<lparr>path = ''/subpath'', requestMethod = ''GET''\<rparr>) ''/'' \<and>
   fst (matchPath (mockRules ! 5) \<lparr>path = ''/subpath'', requestMethod = ''GET''\<rparr>) \<and>
   startsWith (forwardedPath (mockRules ! 5) \<lparr>path = ''/subpath'', requestMethod = ''GET''\<rparr>) ''/'' \<and>
   matchPath (mockRules ! 5) \<lparr>path = ''/'', requestMethod = ''GET''\<rparr> = (True, ''/'')"
proof -
  let ?x = "mkRule ''root-exact'' None (Some ''/'') (Some ''GET'') ''exactRootService'' (Some 20)"
  have h: "exactPath ?x = Some ''/''" "\<not> truthy (exactPath (mockRules ! 5))"
    "pathPrefix (mockRules ! 5) = Some ''/''"
    "startsWith (path \<lparr>path = ''/subpath'', requestMethod = ''GET''\<rparr>) ''/''"
    "path \<lparr>path = ''/subpath'', requestMethod = ''GET''\<rparr> \<noteq> ''/''"
    "path \<lparr>path = ''/'', requestMethod = ''GET''\<rparr> = ''/''"
    by code_simp+
  note t1 = root_rules [of ?x "\<lparr>path = ''/subpath'', requestMethod = ''GET''\<rparr>"]
  note t2 = root_rules [of "mockRules ! 5" "\<lparr>path = ''/subpath'', requestMethod = ''GET''\<rparr>"]
  note t3 = root_rules [of "mockRules ! 5" "\<lparr>path = ''/'', requestMethod = ''GET''\<rparr>"]
  from h t1 have a: "\<not> ruleMatches ?x \<lparr>path = ''/subpath'', requestMethod = ''GET''\<rparr>"
    by blast
  from h t2 have b: "fst (matchPath (mockRules ! 5) \<lparr>path = ''/subpath'', requestMethod = ''GET''\<rparr>)"
    "startsWith (forwardedPath (mockRules ! 5) \<lparr>path = ''/subpath'', requestMethod = ''GET''\<rparr>) ''/''"
    by blast+
  from h t3 have c: "matchPath (mockRules ! 5) \<lparr>path = ''/'', requestMethod = ''GET''\<rparr> = (True, ''/'')"
    by blast
  from h a b c show ?thesis by blast
qed

text \<open>
  C8 as stated fails: a prefix rule for \<open>/\<close> does not match every request path. The
  request path \<open>health\<close>, which does not begin with \<open>/\<close>, is not matched.
\<close>

theorem root_prefix_rejects_relative_path:
  "pathPrefix (mkRule ''root-prefix'' (Some ''/'') None None ''prefixRootService'' (Some 10)) =
     Some ''/'' \<and>
   exactPath (mkRule ''root-prefix'' (Some ''/'') None None ''prefixRootService'' (Some 10)) = None \<and>
   \<not> ruleMatches (mkRule ''root-prefix'' (Some ''/'') None None ''prefixRootService'' (Some 10))
       \<lparr>path = ''health'', requestMethod = ''GET''\<rparr> \<and>
   routeRequest (newRouter [mkRule ''root-prefix'' (Some ''/'') None None ''prefixRootService'' (Some 10)])
       \<lparr>path = ''health'', requestMethod = ''GET''\<rparr> = None"
  by code_simp


subsection \<open>Empty strings in the optional fields\<close>

lemma routeRequest_replacedEmpty:
  assumes "list_all2 replacedEmpty rs rs'"
  shows "routeRequest (newRouter rs) request = routeRequest (newRouter rs') request"
proof -
  have "list_all2 routesAlike rs rs'"
    using assms replacedEmpty_routesAlike by (rule list_all2_mono)
  then show ?thesis by (rule routeRequest_related)
qed

text \<open>
  C10. An empty string in an optional string field behaves as an absent field. A rule whose
  \<open>method\<close> is \<open>''\<close> passes the method filter for every request; a rule whose
  \<open>exactPath\<close> is \<open>''\<close> is a prefix-class rule in sorting, and its exact-path branch is
  never taken; and when, in any rules of a rule set, any of \<open>method\<close>, \<open>exactPath\<close> and
  \<open>pathPrefix\<close> that are \<open>''\<close> are replaced by absent fields, the rules are sorted into
  the same order and every result of \<open>routeRequest\<close> is the same.
\<close>

theorem empty_string_as_absent:
  "(ruleMethod rule = Some [] \<longrightarrow> \<not> methodMismatch rule request) \<and>
   (exactPath rule = Some [] \<longrightarrow>
      \<not> isExact rule \<and>
      compareRules rule other = compareRules (rule\<lparr>exactPath := None\<rparr>) other \<and>
      compareRules other rule = compareRules other (rule\<lparr>exactPath := None\<rparr>) \<and>
      matchPath rule request = matchPath (rule\<lparr>exactPath := None\<rparr>) request) \<and>
   (list_all2 replacedEmpty rs rs' \<longrightarrow>
      list_all2 replacedEmpty (sortRules rs) (sortRules rs') \<and>
      list_all2 replacedEmpty (rules (newRouter rs)) (rules (newRouter rs')) \<and>
      routeRequest (newRouter rs) request = routeRequest (newRouter rs') request)"
proof -
  have a: "\<not> methodMismatch rule request" if "ruleMethod rule = Some []"
    using that by (simp add: methodMismatch_def)
  have b: "\<not> isExact rule \<and>
      compareRules rule other = compareRules (rule\<lparr>exactPath := None\<rparr>) other \<and>
      compareRules other rule = compareRules other (rule\<lparr>exactPath := None\<rparr>) \<and>
      matchPath rule request = matchPath (rule\<lparr>exactPath := None\<rparr>) request"
    if e: "exactPath rule = Some []"
  proof -
    have "replacedEmpty rule (rule\<lparr>exactPath := None\<rparr>)"
      using e by (simp add: replacedEmpty_def emptyAsAbsent_def)
    then have r: "routesAlike rule (rule\<lparr>exactPath := None\<rparr>)"
      by (rule replacedEmpty_routesAlike)
    have "\<not> isExact rule" using e by (simp add: isExact_def)
    moreover have "compareRules rule other = compareRules (rule\<lparr>exactPath := None\<rparr>) other"
      using r routesAlike_refl by (rule routesAlike_compare)
    moreover have "compareRules other rule = compareRules other (rule\<lparr>exactPath := None\<rparr>)"
      using routesAlike_refl r by (rule routesAlike_compare)
    moreover have "matchPath rule request = matchPath (rule\<lparr>exactPath := None\<rparr>) request"
      using r by (rule routesAlike_matchPath)
    ultimately show ?thesis by blast
  qed
  have c: "list_all2 replacedEmpty (sortRules rs) (sortRules rs') \<and>
      list_all2 replacedEmpty (rules (newRouter rs)) (rules (newRouter rs')) \<and>
      routeRequest (newRouter rs) request = routeRequest (newRouter rs') request"
    if l: "list_all2 replacedEmpty rs rs'"
  proof -
    have "list_all2 replacedEmpty (sortRules rs) (sortRules rs')"
      using replacedEmpty_routesAlike l by (rule sortRules_related)
    then show ?thesis
      using routeRequest_replacedEmpty [OF l] by (simp add: rules_newRouter)
  qed
  from a b c show ?thesis by blast
qed

theorem empty_string_as_absent_witness:
  "ruleMethod (mkRule ''e'' (Some ''/users/list'') (Some []) (Some []) ''listService'' (Some 10)) =
     Some [] \<and>
   exactPath (mkRule ''e'' (Some ''/users/list'') (Some []) (Some []) ''listService'' (Some 10)) =
     Some [] \<and>
   list_all2 replacedEmpty
     [mkRule ''e'' (Some ''/users/list'') (Some []) (Some []) ''listService'' (Some 10),
      mkRule ''d'' (Some []) None None ''deadService'' (Some 30), mockRules ! 0]
     [mkRule ''e'' (Some ''/users/list'') None None ''listService'' (Some 10),
      mkRule ''d'' None None None ''deadService'' (Some 30), mockRules ! 0] \<and>
   \<not> methodMismatch
       (mkRule ''e'' (Some ''/users/list'') (Some []) (Some []) ''listService'' (Some 10))
       \<lparr>path = ''/users/list/all'', requestMethod = ''GET''\<rparr> \<and>
   \<not> isExact (mkRule ''e'' (Some ''/users/list'') (Some []) (Some []) ''listService'' (Some 10)) \<and>
   routeRequest (newRouter
       [mkRule ''e'' (Some ''/users/list'') (Some []) (Some []) ''listService'' (Some 10),
        mkRule ''d'' (Some []) None None ''deadService'' (Some 30), mockRules ! 0])
       \<lparr>path = ''/users/list/all'', requestMethod = ''GET''\<rparr> =
     routeRequest (newRouter
       [mkRule ''e'' (Some ''/users/list'') None None ''listService'' (Some 10),
        mkRule ''d'' None None None ''deadService'' (Some 30), mockRules ! 0])
       \<lparr>path = ''/users/list/all'', requestMethod = ''GET''\<rparr> \<and>
   routeRequest (newRouter
       [mkRule ''e'' (Some ''/users/list'') None None ''listService'' (Some 10),
        mkRule ''d'' None None None ''deadService'' (Some 30), mockRules ! 0])
       \<lparr>path = ''/users/list/all'', requestMethod = ''GET''\<rparr> =
     Some \<lparr>resultService = ''listService'', targetPath = ''/all''\<rparr>"
proof -
  let ?e = "mkRule ''e'' (Some ''/users/list'') (Some []) (Some []) ''listService'' (Some 10)"
  let ?rs = "[?e, mkRule ''d'' (Some []) None None ''deadService'' (Some 30), mockRules ! 0]"
  let ?rs' = "[mkRule ''e'' (Some ''/users/list'') None None ''listService'' (Some 10),
      mkRule ''d'' None None None ''deadService'' (Some 30), mockRules ! 0]"
  let ?q = "\<lparr>path = ''/users/list/all'', requestMethod = ''GET''\<rparr>"
  have h: "ruleMethod ?e = Some []" "exactPath ?e = Some []" "list_all2 replacedEmpty ?rs ?rs'"
    by code_simp+
  have c: "routeRequest (newRouter ?rs') ?q =
     Some \<lparr>resultService = ''listService'', targetPath = ''/all''\<rparr>"
    by code_simp
  note t = empty_string_as_absent [of ?e ?q _ ?rs ?rs']
  from h t have a: "\<not> methodMismatch ?e ?q" "\<not> isExact ?e"
    "routeRequest (newRouter ?rs) ?q = routeRequest (newRouter ?rs') ?q"
    by blast+
  from h c a show ?thesis by blast
qed

end
